theory Spec2Isabelle
  imports Complex_Main "HOL-Library.Monad_Syntax" "HOL-Library.Multiset"
begin

section \<open>Strings\<close>

text \<open>
  A JavaScript string is a sequence of code units and \<open>length\<close>, \<open>charAt\<close> and
  \<open>includes\<close> count and compare code units. The model is \<open>string\<close>, a list of
  8-bit characters read as the code units U+0000 to U+00FF (Latin-1), which covers the
  country names of the catalogue. On this range \<open>toLowerCase\<close> maps A-Z and the
  accented capitals U+00C0 to U+00DE (without the multiplication sign U+00D7) to the
  character 32 places up, and \<open>trim\<close> removes tab, line feed, vertical tab, form feed,
  carriage return, space and no-break space from both ends.
\<close>

definition toLowerCase_char :: "char \<Rightarrow> char" where
  "toLowerCase_char c =
     (let n = (of_char c :: nat)
      in if (65 \<le> n \<and> n \<le> 90) \<or> (192 \<le> n \<and> n \<le> 214) \<or> (216 \<le> n \<and> n \<le> 222)
         then char_of (n + 32) else c)"

definition toLowerCase :: "string \<Rightarrow> string" where
  "toLowerCase s = map toLowerCase_char s"

definition isWhiteSpace :: "char \<Rightarrow> bool" where
  "isWhiteSpace c = ((of_char c :: nat) \<in> {9, 10, 11, 12, 13, 32, 160})"

definition trim :: "string \<Rightarrow> string" where
  "trim s = rev (dropWhile isWhiteSpace (rev (dropWhile isWhiteSpace s)))"

fun startsWith :: "'a list \<Rightarrow> 'a list \<Rightarrow> bool" where
  "startsWith s [] = True"
| "startsWith [] (g # gs) = False"
| "startsWith (c # s) (g # gs) = (c = g \<and> startsWith s gs)"

text \<open>\<open>s.includes(g)\<close>: \<open>g\<close> starts at some position of \<open>s\<close>.\<close>

fun js_includes :: "'a list \<Rightarrow> 'a list \<Rightarrow> bool" where
  "js_includes [] g = (g = [])"
| "js_includes (c # s) g = (startsWith (c # s) g \<or> js_includes s g)"

definition charAt :: "'a list \<Rightarrow> nat \<Rightarrow> 'a list" where
  "charAt s i = (if i < length s then [s ! i] else [])"

section \<open>The edit distance of App.tsx\<close>

text \<open>
  \<open>levenshteinDistance(a, b)\<close> fills a table \<open>matrix\<close> of \<open>b.length + 1\<close> rows, each an
  array that grows by one cell per assignment. A JavaScript array write at an index below
  the length replaces the cell, a write at the length appends, and a write beyond it would
  leave holes; a read outside the filled part gives \<open>undefined\<close>. The model keeps each row
  as a list without holes and answers \<open>None\<close> wherever the source would read \<open>undefined\<close>
  or leave a hole, so that a result \<open>Some d\<close> says that every read met a number.
\<close>

type_synonym matrix = "nat list list"

text \<open>\<open>matrix[i][j]\<close> as a value.\<close>

definition cell :: "matrix \<Rightarrow> nat \<Rightarrow> nat \<Rightarrow> nat option" where
  "cell m i j = (if i < length m \<and> j < length (m ! i) then Some (m ! i ! j) else None)"

text \<open>\<open>matrix[i] = r\<close>.\<close>

definition set_row :: "matrix \<Rightarrow> nat \<Rightarrow> nat list \<Rightarrow> matrix option" where
  "set_row m i r =
     (if i < length m then Some (m[i := r])
      else if i = length m then Some (m @ [r])
      else None)"

text \<open>\<open>matrix[i][j] = v\<close>.\<close>

definition set_cell :: "matrix \<Rightarrow> nat \<Rightarrow> nat \<Rightarrow> nat \<Rightarrow> matrix option" where
  "set_cell m i j v =
     (if i < length m then
        (if j < length (m ! i) then Some (m[i := (m ! i)[j := v]])
         else if j = length (m ! i) then Some (m[i := m ! i @ [v]])
         else None)
      else None)"

text \<open>
  A counting loop \<open>for (let i = lo; i <= hi; i++) body\<close> runs its body over the indices
  \<open>[lo..<Suc hi]\<close> in order, threading the table through, and stops at the first failure.
\<close>

fun for_loop :: "nat list \<Rightarrow> (nat \<Rightarrow> 's \<Rightarrow> 's option) \<Rightarrow> 's \<Rightarrow> 's option" where
  "for_loop [] body s = Some s"
| "for_loop (i # is) body s =
     (case body i s of None \<Rightarrow> None | Some s' \<Rightarrow> for_loop is body s')"

text \<open>The body of the inner loop: one cell from its three neighbours.\<close>

definition fill_cell :: "'a list \<Rightarrow> 'a list \<Rightarrow> nat \<Rightarrow> nat \<Rightarrow> matrix \<Rightarrow> matrix option" where
  "fill_cell a b i j m =
     (if charAt b (i - 1) = charAt a (j - 1) then
        do { d \<leftarrow> cell m (i - 1) (j - 1); set_cell m i j d }
      else
        do { d \<leftarrow> cell m (i - 1) (j - 1);
             l \<leftarrow> cell m i (j - 1);
             u \<leftarrow> cell m (i - 1) j;
             set_cell m i j (min (d + 1) (min (l + 1) (u + 1))) })"

definition levenshteinDistance :: "'a list \<Rightarrow> 'a list \<Rightarrow> nat option" where
  "levenshteinDistance a b =
     do { m1 \<leftarrow> for_loop [0..<Suc (length b)] (\<lambda>i m. set_row m i [i]) [];
          m2 \<leftarrow> for_loop [0..<Suc (length a)] (\<lambda>j m. set_cell m 0 j j) m1;
          m3 \<leftarrow> for_loop [1..<Suc (length b)]
                  (\<lambda>i m. for_loop [1..<Suc (length a)] (\<lambda>j m'. fill_cell a b i j m') m) m2;
          cell m3 (length b) (length a) }"

subsection \<open>The reference distance\<close>

text \<open>
  The textbook recursion on the heads of the two strings: the length of the other string
  when one is empty, the distance of the tails when the heads agree, and otherwise one
  more than the least of the three distances after a deletion, an insertion or a
  substitution.
\<close>

fun lev :: "'a list \<Rightarrow> 'a list \<Rightarrow> nat" where
  "lev xs [] = length xs"
| "lev [] ys = length ys"
| "lev (x # xs) (y # ys) =
     (if x = y then lev xs ys
      else 1 + min (lev xs (y # ys)) (min (lev (x # xs) ys) (lev xs ys)))"

text \<open>
  An auxiliary form of the same distance that always takes the least of the three moves
  and charges a substitution only when the heads differ; it is what the proofs work with.
\<close>

fun edit :: "'a list \<Rightarrow> 'a list \<Rightarrow> nat" where
  "edit [] ys = length ys"
| "edit (x # xs) [] = Suc (length xs)"
| "edit (x # xs) (y # ys) =
     min (edit xs (y # ys) + 1)
       (min (edit (x # xs) ys + 1) (edit xs ys + (if x = y then 0 else 1)))"

text \<open>What cell \<open>(i, j)\<close> of the finished table holds, and the shape of the table while
  row \<open>i\<close> is filled up to column \<open>j\<close>.\<close>

definition dist_at :: "'a list \<Rightarrow> 'a list \<Rightarrow> nat \<Rightarrow> nat \<Rightarrow> nat" where
  "dist_at a b i j = edit (take j a) (take i b)"

definition rows_inv :: "'a list \<Rightarrow> 'a list \<Rightarrow> nat \<Rightarrow> nat \<Rightarrow> matrix \<Rightarrow> bool" where
  "rows_inv a b i j m \<longleftrightarrow>
     length m = Suc (length b) \<and>
     (\<forall>k<i. m ! k = map (dist_at a b k) [0..<Suc (length a)]) \<and>
     m ! i = map (dist_at a b i) [0..<j] \<and>
     (\<forall>k. i < k \<and> k \<le> length b \<longrightarrow> m ! k = [k])"

section \<open>The match judge\<close>

text \<open>
  \<open>checkMatch\<close> is the closure inside \<open>handleSubmitGuess\<close>; its free variable \<open>guess\<close>
  (the typed text, lower-cased and then trimmed) is the first argument here. The target is
  optional because the common name of the country details may be missing; an absent
  and an empty target are both falsy.
\<close>

definition checkMatch :: "string \<Rightarrow> string option \<Rightarrow> bool" where
  "checkMatch guess target =
     (case target of
        None \<Rightarrow> False
      | Some t \<Rightarrow>
          if t = [] then False
          else
            let normalizedTarget = toLowerCase t in
            if normalizedTarget = guess then True
            else if 3 < length guess \<and> js_includes normalizedTarget guess then True
            else
              (case levenshteinDistance normalizedTarget guess of
                 None \<Rightarrow> False
               | Some distance \<Rightarrow>
                   let len = length normalizedTarget in
                   if len \<le> 3 then distance = 0
                   else if len \<le> 7 then distance \<le> 1
                   else if len \<le> 12 then distance \<le> 2
                   else distance \<le> 3))"

section \<open>The state of the App component\<close>

datatype GameStatus = LOADING | IDLE | PLAYING | SUCCESS | FAILURE

datatype MessageType = MsgError | MsgSuccess | MsgInfo

text \<open>A catalogue feature: its optional \<open>id\<close> and \<open>properties.name\<close>.\<close>

record CountryFeature =
  feature_id :: "string option"
  feature_name :: string

record CountryDetails =
  flag :: string
  details_name :: string
  capital :: "string option"
  region :: "string option"

record Player =
  player_id :: string
  player_name :: string
  score :: int
  color :: string

record LeaderboardEntry =
  entry_name :: string
  entry_score :: int
  date :: string

text \<open>The fields of the first element of a restcountries.com answer that the code reads.\<close>

record RestCountry =
  flags_svg :: "string option"
  flags_png :: "string option"
  name_common :: "string option"
  capital_list :: "string list option"
  rest_region :: "string option"

text \<open>
  The \<open>useState\<close> cells of \<open>App\<close> that the game logic reads or writes. A handler runs
  to completion on the state of the render it was created in, so each handler is a function
  from the state before to the state after. \<open>currentPlayerIndex\<close> is a JavaScript number:
  \<open>None\<close> stands for \<open>NaN\<close>, which \<open>(prev + 1) % players.length\<close> yields on an empty roster.
\<close>

record App =
  geoData :: "CountryFeature list option"
  targetCountry :: "CountryFeature option"
  countryDetails :: "CountryDetails option"
  gameStatus :: GameStatus
  userGuess :: string
  hints :: "string list"
  isLoadingHint :: bool
  message :: "(string \<times> MessageType) option"
  lives :: int
  players :: "Player list"
  currentPlayerIndex :: "nat option"
  newPlayerName :: string
  leaderboard :: "LeaderboardEntry list"
  showLeaderboard :: bool

definition PLAYER_COLORS :: "string list" where
  "PLAYER_COLORS =
     [''text-blue-400'', ''text-green-400'', ''text-purple-400'',
      ''text-pink-400'', ''text-yellow-400'', ''text-cyan-400'']"

subsection \<open>Roster\<close>

text \<open>\<open>now\<close> is the text of \<open>Date.now()\<close> at the call.\<close>

definition addPlayer :: "string \<Rightarrow> App \<Rightarrow> App" where
  "addPlayer now s =
     (if trim (newPlayerName s) = [] then s
      else
        let c = PLAYER_COLORS ! (length (players s) mod length PLAYER_COLORS);
            newPlayer = \<lparr>player_id = now, player_name = trim (newPlayerName s),
                         score = 0, color = c\<rparr>
        in s\<lparr>players := players s @ [newPlayer], newPlayerName := []\<rparr>)"

definition removePlayer :: "string \<Rightarrow> App \<Rightarrow> App" where
  "removePlayer pid s = s\<lparr>players := filter (\<lambda>p. player_id p \<noteq> pid) (players s)\<rparr>"

subsection \<open>Rounds\<close>

text \<open>\<open>(prev + 1) % n\<close> on JavaScript numbers.\<close>

definition next_index :: "nat option \<Rightarrow> nat \<Rightarrow> nat option" where
  "next_index prev n =
     (case prev of
        None \<Rightarrow> None
      | Some p \<Rightarrow> if n = 0 then None else Some ((p + 1) mod n))"

text \<open>
  The synchronous part of \<open>startNewRound\<close>; the target is drawn 1500 ms later by
  \<open>roundTimer\<close>. The callback is rebuilt whenever \<open>players.length\<close> changes, so the length
  it rotates by is the one of the state it runs in.
\<close>

definition startNewRound :: "bool \<Rightarrow> App \<Rightarrow> App" where
  "startNewRound isFirstRound s =
     (case geoData s of
        None \<Rightarrow> s
      | Some g \<Rightarrow>
          let s1 = (if \<not> isFirstRound
                    then s\<lparr>currentPlayerIndex :=
                             next_index (currentPlayerIndex s) (length (players s))\<rparr>
                    else s)
          in s1\<lparr>gameStatus := IDLE, targetCountry := None, countryDetails := None,
                 userGuess := [], hints := [], message := None, lives := 3\<rparr>)"

definition startGameSession :: "App \<Rightarrow> App" where
  "startGameSession s =
     (let s1 = (if players s = []
                then s\<lparr>players := [\<lparr>player_id = ''1'', player_name = ''Player 1'',
                                       score = 0, color = PLAYER_COLORS ! 0\<rparr>]\<rparr>
                else s)
      in startNewRound True (s1\<lparr>currentPlayerIndex := Some 0\<rparr>))"

definition fallbackDetails :: "CountryFeature \<Rightarrow> CountryDetails" where
  "fallbackDetails randomFeature =
     \<lparr>flag = [], details_name = feature_name randomFeature, capital = None, region = None\<rparr>"

text \<open>A string is truthy when it is present and not empty; \<open>x || y\<close> is \<open>x\<close> when
  \<open>x\<close> is truthy and \<open>y\<close> otherwise.\<close>

definition truthy :: "string option \<Rightarrow> bool" where
  "truthy x = (case x of None \<Rightarrow> False | Some v \<Rightarrow> v \<noteq> [])"

definition or_else :: "string option \<Rightarrow> string \<Rightarrow> string" where
  "or_else x y = (case x of None \<Rightarrow> y | Some v \<Rightarrow> if v = [] then y else v)"

text \<open>
  The timer callback of \<open>startNewRound\<close>, with the feature that \<open>Math.random\<close> drew from
  the catalogue. It sets the target and the status; for a feature with an id it issues the
  request for the country details, whose answer arrives later as \<open>detailsResolved\<close> or
  \<open>detailsRejected\<close>, and for a feature without one it sets the fallback details at once.
\<close>

definition roundTimer :: "CountryFeature \<Rightarrow> App \<Rightarrow> App" where
  "roundTimer randomFeature s =
     (let s1 = s\<lparr>targetCountry := Some randomFeature, gameStatus := PLAYING\<rparr>
      in if truthy (feature_id randomFeature) then s1
         else s1\<lparr>countryDetails := Some (fallbackDetails randomFeature)\<rparr>)"

text \<open>The details object built from \<open>data[0]\<close> of an answer, for the feature of the request.\<close>

definition detailsFrom :: "CountryFeature \<Rightarrow> RestCountry \<Rightarrow> CountryDetails" where
  "detailsFrom randomFeature d =
     \<lparr>flag = or_else (flags_svg d) (or_else (flags_png d) []),
      details_name = or_else (name_common d) (feature_name randomFeature),
      capital = (case capital_list d of
                   None \<Rightarrow> None | Some [] \<Rightarrow> None | Some (c # cs) \<Rightarrow> Some c),
      region = rest_region d\<rparr>"

text \<open>
  The \<open>then\<close> callback of the details request issued for \<open>randomFeature\<close>; \<open>data\<close> is
  \<open>data[0]\<close> of the answer, if there is one.
\<close>

definition detailsResolved :: "CountryFeature \<Rightarrow> RestCountry option \<Rightarrow> App \<Rightarrow> App" where
  "detailsResolved randomFeature data s =
     (case data of
        None \<Rightarrow> s
      | Some d \<Rightarrow> s\<lparr>countryDetails := Some (detailsFrom randomFeature d)\<rparr>)"

text \<open>The \<open>catch\<close> callback of the same request.\<close>

definition detailsRejected :: "CountryFeature \<Rightarrow> App \<Rightarrow> App" where
  "detailsRejected randomFeature s = s\<lparr>countryDetails := Some (fallbackDetails randomFeature)\<rparr>"

subsection \<open>Hints\<close>

text \<open>
  \<open>handleRequestHint\<close> up to its \<open>await\<close>, and its continuation with the text that
  \<open>generateCountryHint\<close> returned.
\<close>

definition handleRequestHint :: "App \<Rightarrow> App" where
  "handleRequestHint s =
     (if targetCountry s = None \<or> isLoadingHint s then s else s\<lparr>isLoadingHint := True\<rparr>)"

definition hintResolved :: "string \<Rightarrow> App \<Rightarrow> App" where
  "hintResolved newHint s = s\<lparr>hints := hints s @ [newHint], isLoadingHint := False\<rparr>"

subsection \<open>Score, skip and guess\<close>

text \<open>\<open>xs.map((p, i) => f)\<close>, counting from \<open>i\<close>.\<close>

fun map_index :: "(nat \<Rightarrow> 'a \<Rightarrow> 'b) \<Rightarrow> nat \<Rightarrow> 'a list \<Rightarrow> 'b list" where
  "map_index f i [] = []"
| "map_index f i (x # xs) = f i x # map_index f (Suc i) xs"

definition updateCurrentPlayerScore :: "int \<Rightarrow> App \<Rightarrow> App" where
  "updateCurrentPlayerScore points s =
     s\<lparr>players :=
         map_index (\<lambda>i p. if Some i = currentPlayerIndex s
                           then p\<lparr>score := score p + points\<rparr> else p)
           0 (players s)\<rparr>"

definition handleSkip :: "App \<Rightarrow> App" where
  "handleSkip s =
     (if gameStatus s \<noteq> PLAYING then s
      else (updateCurrentPlayerScore (- 5) (s\<lparr>lives := max 0 (lives s - 1)\<rparr>))
             \<lparr>gameStatus := FAILURE\<rparr>)"

text \<open>\<open>isCorrect\<close> of \<open>handleSubmitGuess\<close>, for the target of the round.\<close>

definition isCorrect :: "CountryFeature \<Rightarrow> App \<Rightarrow> bool" where
  "isCorrect target s =
     (let guess = trim (toLowerCase (userGuess s));
          correctName = feature_name target;
          commonName = map_option details_name (countryDetails s)
      in checkMatch guess (Some correctName) \<or> checkMatch guess commonName)"

definition handleSubmitGuess :: "App \<Rightarrow> App" where
  "handleSubmitGuess s =
     (case targetCountry s of
        None \<Rightarrow> s
      | Some target \<Rightarrow>
          if trim (userGuess s) = [] \<or> gameStatus s \<noteq> PLAYING then s
          else if isCorrect target s then
            updateCurrentPlayerScore 5 (s\<lparr>gameStatus := SUCCESS\<rparr>)
          else
            let newLives = lives s - 1;
                s1 = updateCurrentPlayerScore (- 5) (s\<lparr>lives := newLives\<rparr>)
            in if newLives \<le> 0 then s1\<lparr>gameStatus := FAILURE\<rparr>
               else s1\<lparr>message := Some (''Incorrect!'', MsgError)\<rparr>)"

text \<open>The timer that clears the "Incorrect!" message.\<close>

definition messageTimer :: "App \<Rightarrow> App" where
  "messageTimer s =
     (case message s of
        Some (t, MsgError) \<Rightarrow> s\<lparr>message := None\<rparr>
      | _ \<Rightarrow> s)"

subsection \<open>Sequences of guesses and skips\<close>

text \<open>
  A guess is typed into \<open>userGuess\<close> and submitted; a skip is the "I don't know" button.
  \<open>trace\<close> lists the states a sequence of such calls passes through, the first included.
\<close>

datatype action = SubmitGuess string | Skip

fun step :: "action \<Rightarrow> App \<Rightarrow> App" where
  "step (SubmitGuess g) s = handleSubmitGuess (s\<lparr>userGuess := g\<rparr>)"
| "step Skip s = handleSkip s"

fun trace :: "App \<Rightarrow> action list \<Rightarrow> App list" where
  "trace s [] = [s]"
| "trace s (a # as) = s # trace (step a s) as"

text \<open>Some skip of the sequence was called while the status was \<open>PLAYING\<close>.\<close>

fun skipped_while_playing :: "App \<Rightarrow> action list \<Rightarrow> bool" where
  "skipped_while_playing s [] = False"
| "skipped_while_playing s (a # as) =
     ((a = Skip \<and> gameStatus s = PLAYING) \<or> skipped_while_playing (step a s) as)"

text \<open>Some guess of the sequence was submitted while \<open>PLAYING\<close> and judged correct.\<close>

fun accepted :: "action \<Rightarrow> App \<Rightarrow> bool" where
  "accepted (SubmitGuess g) s =
     (case targetCountry s of
        None \<Rightarrow> False
      | Some target \<Rightarrow>
          trim g \<noteq> [] \<and> gameStatus s = PLAYING \<and> isCorrect target (s\<lparr>userGuess := g\<rparr>))"
| "accepted Skip s = False"

fun guessed_correctly :: "App \<Rightarrow> action list \<Rightarrow> bool" where
  "guessed_correctly s [] = False"
| "guessed_correctly s (a # as) = (accepted a s \<or> guessed_correctly (step a s) as)"

text \<open>The invariant of a round that these calls keep.\<close>

definition round_ok :: "App \<Rightarrow> bool" where
  "round_ok s \<longleftrightarrow>
     0 \<le> lives s \<and> lives s \<le> 3 \<and>
     (gameStatus s = PLAYING \<longrightarrow> 1 \<le> lives s) \<and>
     (lives s = 0 \<longrightarrow> gameStatus s = FAILURE)"

text \<open>The turn pointers seen at a session start and at the \<open>n\<close> round starts after it.\<close>

fun turns :: "nat \<Rightarrow> App \<Rightarrow> nat option list" where
  "turns 0 s = [currentPlayerIndex s]"
| "turns (Suc n) s = currentPlayerIndex s # turns n (startNewRound False s)"

section \<open>The leaderboard\<close>

text \<open>
  \<open>Array.prototype.sort\<close> with a comparator is a stable sort: the result is ordered by the
  comparator and elements that compare equal keep their order. Every stable sort gives the
  same list, so the model is insertion from the right, where an element goes before the
  first one it does not have to follow.
\<close>

fun insert_by :: "('a \<Rightarrow> 'a \<Rightarrow> int) \<Rightarrow> 'a \<Rightarrow> 'a list \<Rightarrow> 'a list" where
  "insert_by cmp x [] = [x]"
| "insert_by cmp x (y # ys) =
     (if cmp x y \<le> 0 then x # y # ys else y # insert_by cmp x ys)"

definition sort_by :: "('a \<Rightarrow> 'a \<Rightarrow> int) \<Rightarrow> 'a list \<Rightarrow> 'a list" where
  "sort_by cmp xs = foldr (insert_by cmp) xs []"

text \<open>\<open>now\<close> is \<open>new Date().toISOString()\<close> at the call.\<close>

definition newEntries :: "string \<Rightarrow> Player list \<Rightarrow> LeaderboardEntry list" where
  "newEntries now ps =
     filter (\<lambda>p. 0 < entry_score p)
       (map (\<lambda>p. \<lparr>entry_name = player_name p, entry_score = score p, date = now\<rparr>) ps)"

definition updatedLeaderboard :: "string \<Rightarrow> App \<Rightarrow> LeaderboardEntry list" where
  "updatedLeaderboard now s =
     take 50 (sort_by (\<lambda>a b. entry_score b - entry_score a)
                (leaderboard s @ newEntries now (players s)))"

definition handleEndGame :: "string \<Rightarrow> App \<Rightarrow> App" where
  "handleEndGame now s =
     s\<lparr>leaderboard := updatedLeaderboard now s, players := [], gameStatus := IDLE,
       showLeaderboard := True, targetCountry := None\<rparr>"

section \<open>The zoom scale of the Map component\<close>

text \<open>
  JavaScript numbers with their special values; rounding and the sign of zero are left
  out (the extents and ratios below are never \<open>-0\<close>). Division by zero is not an error:
  it gives an infinity, or \<open>NaN\<close> for \<open>0 / 0\<close>. \<open>Math.max\<close> and \<open>Math.min\<close> give \<open>NaN\<close> as
  soon as an argument is \<open>NaN\<close>.
\<close>

datatype number = Fin real | PInf | NInf | NaN

fun js_div :: "number \<Rightarrow> number \<Rightarrow> number" where
  "js_div NaN y = NaN"
| "js_div x NaN = NaN"
| "js_div (Fin x) (Fin y) =
     (if y = 0 then (if x = 0 then NaN else if 0 < x then PInf else NInf) else Fin (x / y))"
| "js_div (Fin x) PInf = Fin 0"
| "js_div (Fin x) NInf = Fin 0"
| "js_div PInf (Fin y) = (if y < 0 then NInf else PInf)"
| "js_div NInf (Fin y) = (if y < 0 then PInf else NInf)"
| "js_div PInf PInf = NaN"
| "js_div PInf NInf = NaN"
| "js_div NInf PInf = NaN"
| "js_div NInf NInf = NaN"

fun js_max :: "number \<Rightarrow> number \<Rightarrow> number" where
  "js_max NaN y = NaN"
| "js_max x NaN = NaN"
| "js_max PInf y = PInf"
| "js_max x PInf = PInf"
| "js_max NInf y = y"
| "js_max x NInf = x"
| "js_max (Fin x) (Fin y) = Fin (max x y)"

fun js_min :: "number \<Rightarrow> number \<Rightarrow> number" where
  "js_min NaN y = NaN"
| "js_min x NaN = NaN"
| "js_min NInf y = NInf"
| "js_min x NInf = NInf"
| "js_min PInf y = y"
| "js_min x PInf = x"
| "js_min (Fin x) (Fin y) = Fin (min x y)"

text \<open>\<open>Math.max(dx / width, dy / height)\<close>, the divisor of the scale.\<close>

definition scale_divisor :: "number \<Rightarrow> number \<Rightarrow> number \<Rightarrow> number \<Rightarrow> number" where
  "scale_divisor dx dy width height = js_max (js_div dx width) (js_div dy height)"

definition zoom_scale :: "number \<Rightarrow> number \<Rightarrow> number \<Rightarrow> number \<Rightarrow> number" where
  "zoom_scale dx dy width height =
     js_max (Fin 1) (js_min (Fin 50) (js_div (Fin (85 / 100)) (scale_divisor dx dy width height)))"

text \<open>The clamp of the specification, on real numbers.\<close>

definition clamp :: "real \<Rightarrow> real \<Rightarrow> real \<Rightarrow> real" where
  "clamp x lower upper = max lower (min upper x)"

section \<open>Example states\<close>

text \<open>
  Two catalogue features with the answers of the details service for them, and the state
  of \<open>App\<close> once the catalogue is loaded: the initial values of the state cells, with
  \<open>geoData\<close> set and the status \<open>IDLE\<close>.
\<close>

definition italy :: CountryFeature where
  "italy = \<lparr>feature_id = Some ''ITA'', feature_name = ''Italy''\<rparr>"

definition france :: CountryFeature where
  "france = \<lparr>feature_id = Some ''FRA'', feature_name = ''France''\<rparr>"

definition rest_italy :: RestCountry where
  "rest_italy = \<lparr>flags_svg = Some ''it.svg'', flags_png = None, name_common = Some ''Italy'',
                  capital_list = Some [''Rome''], rest_region = Some ''Europe''\<rparr>"

definition rest_france :: RestCountry where
  "rest_france = \<lparr>flags_svg = Some ''fr.svg'', flags_png = None, name_common = Some ''France'',
                   capital_list = Some [''Paris''], rest_region = Some ''Europe''\<rparr>"

definition loaded :: App where
  "loaded =
     \<lparr>geoData = Some [italy, france], targetCountry = None, countryDetails = None,
      gameStatus = IDLE, userGuess = [], hints = [], isLoadingHint = False, message = None,
      lives = 3, players = [], currentPlayerIndex = Some 0, newPlayerName = [],
      leaderboard = [], showLeaderboard = False\<rparr>"

definition player :: "string \<Rightarrow> string \<Rightarrow> int \<Rightarrow> Player" where
  "player pid n sc = \<lparr>player_id = pid, player_name = n, score = sc, color = ''text-blue-400''\<rparr>"

text \<open>A round on Italy in a session of one player, Ann.\<close>

definition playing_italy :: App where
  "playing_italy =
     roundTimer italy (startNewRound True (loaded\<lparr>players := [player ''1'' ''Ann'' 0]\<rparr>))"

section \<open>Properties of the edit distance\<close>

text \<open>The auxiliary distance moves by at most one when a character is added or removed.\<close>

lemma edit_Nil2 [simp]: "edit xs [] = length xs"
  by (cases xs) auto

lemma edit_up1: "edit (x # xs) ys \<le> Suc (edit xs ys)"
  by (cases ys) auto

lemma edit_up2: "edit xs (y # ys) \<le> Suc (edit xs ys)"
  by (cases xs) auto

lemma edit_low2: "edit xs ys \<le> Suc (edit xs (y # ys))"
proof (induction xs arbitrary: ys y)
  case Nil
  then show ?case by simp
next
  case (Cons a xs)
  have 1: "edit (a # xs) ys \<le> Suc (Suc (edit xs (y # ys)))"
    using Cons.IH[of ys y] edit_up1[of a xs ys] by linarith
  have 3: "edit (a # xs) ys \<le> Suc (edit xs ys)" by (rule edit_up1)
  show ?case using 1 3 by (simp add: min_def)
qed

lemma edit_low1: "edit xs ys \<le> Suc (edit (x # xs) ys)"
proof (induction ys arbitrary: xs x)
  case Nil
  then show ?case by simp
next
  case (Cons b ys)
  have 1: "edit xs (b # ys) \<le> Suc (Suc (edit (x # xs) ys))"
    using Cons.IH[of xs x] edit_up2[of xs b ys] by linarith
  have 3: "edit xs (b # ys) \<le> Suc (edit xs ys)" by (rule edit_up2)
  show ?case using 1 3 by (simp add: min_def)
qed

lemma lev_eq_edit: "lev xs ys = edit xs ys"
proof (induction xs ys rule: lev.induct)
  case (3 x xs y ys)
  show ?case
  proof (cases "x = y")
    case True
    then show ?thesis using 3 edit_low1[of xs ys y] edit_low2[of xs ys y] by (simp add: min_def)
  next
    case False
    then show ?thesis using 3 by (simp add: min_def)
  qed
qed simp_all


lemma min9:
  fixes A B C D E F G H I p q :: nat
  shows "min (min (A + 1) (min (B + 1) (C + q)) + 1)
           (min (min (D + 1) (min (E + 1) (F + q)) + 1) (min (G + 1) (min (H + 1) (I + q)) + p))
       = min (min (A + 1) (min (D + 1) (G + p)) + 1)
           (min (min (B + 1) (min (E + 1) (H + p)) + 1) (min (C + 1) (min (F + 1) (I + p)) + q))"
  unfolding min_add_distrib_left
  by (simp only: min.assoc min.commute min.left_commute add.assoc add.commute add.left_commute)

lemma edit_snoc_Nil: "edit [] (ys @ [b]) = Suc (length ys)"
  by simp

lemma edit_one_snoc: "edit [a] (ys @ [b]) =
    min (edit [] (ys @ [b]) + 1) (min (edit [a] ys + 1) (edit [] ys + (if a = b then 0 else 1)))"
  by (induction ys) (auto simp: min_def)

lemma edit_snoc_one: "edit (xs @ [a]) [b] =
    min (edit xs [b] + 1) (min (edit (xs @ [a]) [] + 1) (edit xs [] + (if a = b then 0 else 1)))"
  by (induction xs) (auto simp: min_def)

lemma edit_snoc: "edit (xs @ [a]) (ys @ [b]) =
    min (edit xs (ys @ [b]) + 1) (min (edit (xs @ [a]) ys + 1) (edit xs ys + (if a = b then 0 else 1)))"
proof (induction xs ys rule: edit.induct)
  case (1 ys)
  show ?case using edit_one_snoc[of a ys b] by simp
next
  case (2 x xs)
  show ?case using edit_snoc_one[of "x # xs" a b] by simp
next
  case (3 x xs y ys)
  define p :: nat where "p = (if x = y then 0 else 1)"
  define q :: nat where "q = (if a = b then 0 else 1)"
  have ih1: "edit (xs @ [a]) (y # ys @ [b]) =
      min (edit xs (y # ys @ [b]) + 1) (min (edit (xs @ [a]) (y # ys) + 1) (edit xs (y # ys) + q))"
    using "3.IH"(1) by (simp add: q_def)
  have ih2: "edit (x # xs @ [a]) (ys @ [b]) =
      min (edit (x # xs) (ys @ [b]) + 1) (min (edit (x # xs @ [a]) ys + 1) (edit (x # xs) ys + q))"
    using "3.IH"(2) by (simp add: q_def)
  have ih3: "edit (xs @ [a]) (ys @ [b]) =
      min (edit xs (ys @ [b]) + 1) (min (edit (xs @ [a]) ys + 1) (edit xs ys + q))"
    using "3.IH"(3) by (simp add: q_def)
  have l: "edit ((x # xs) @ [a]) ((y # ys) @ [b]) =
      min (edit (xs @ [a]) (y # ys @ [b]) + 1)
        (min (edit (x # xs @ [a]) (ys @ [b]) + 1) (edit (xs @ [a]) (ys @ [b]) + p))"
    by (simp add: p_def)
  have r1: "edit (x # xs) ((y # ys) @ [b]) =
      min (edit xs (y # ys @ [b]) + 1) (min (edit (x # xs) (ys @ [b]) + 1) (edit xs (ys @ [b]) + p))"
    by (simp add: p_def)
  have r2: "edit ((x # xs) @ [a]) (y # ys) =
      min (edit (xs @ [a]) (y # ys) + 1) (min (edit (x # xs @ [a]) ys + 1) (edit (xs @ [a]) ys + p))"
    by (simp add: p_def)
  have r3: "edit (x # xs) (y # ys) =
      min (edit xs (y # ys) + 1) (min (edit (x # xs) ys + 1) (edit xs ys + p))"
    by (simp add: p_def)
  show ?case
    unfolding l r1 r2 r3 ih1 ih2 ih3 q_def[symmetric] by (rule min9)
qed

lemma edit_rev: "edit (rev xs) (rev ys) = edit xs ys"
proof (induction xs ys rule: edit.induct)
  case (3 x xs y ys)
  have "edit (rev (x # xs)) (rev (y # ys)) = edit (rev xs @ [x]) (rev ys @ [y])" by simp
  also have "\<dots> = min (edit (rev xs) (rev ys @ [y]) + 1)
      (min (edit (rev xs @ [x]) (rev ys) + 1) (edit (rev xs) (rev ys) + (if x = y then 0 else 1)))"
    by (rule edit_snoc)
  also have "\<dots> = edit (x # xs) (y # ys)"
    using "3.IH" by simp
  finally show ?case .
qed simp_all

lemma edit_snoc_same: "edit (xs @ [a]) (ys @ [a]) = edit xs ys"
proof -
  have "edit (xs @ [a]) (ys @ [a]) = edit (a # rev xs) (a # rev ys)"
    using edit_rev[of "xs @ [a]" "ys @ [a]"] by simp
  also have "\<dots> = edit (rev xs) (rev ys)"
    using edit_low1[of "rev xs" "rev ys" a] edit_low2[of "rev xs" "rev ys" a]
    by (simp add: min_def)
  finally show ?thesis by (simp add: edit_rev)
qed

lemma edit_snoc_diff: "a \<noteq> b \<Longrightarrow> edit (xs @ [a]) (ys @ [b]) =
    min (edit xs ys + 1) (min (edit xs (ys @ [b]) + 1) (edit (xs @ [a]) ys + 1))"
  by (simp add: edit_snoc min.assoc min.commute min.left_commute)

lemma for_loop_append:
  "for_loop (xs @ ys) body s = (case for_loop xs body s of None \<Rightarrow> None | Some s' \<Rightarrow> for_loop ys body s')"
  by (induction xs arbitrary: s) (auto split: option.splits)

lemma for_loop_inv:
  assumes "lo \<le> hi" and "I lo s"
    and step: "\<And>k t. lo \<le> k \<Longrightarrow> k < hi \<Longrightarrow> I k t \<Longrightarrow> \<exists>t'. body k t = Some t' \<and> I (Suc k) t'"
  shows "\<exists>t. for_loop [lo..<hi] body s = Some t \<and> I hi t"
  using assms
proof (induction hi)
  case 0
  then show ?case by simp
next
  case (Suc hi)
  show ?case
  proof (cases "lo = Suc hi")
    case True
    then show ?thesis using Suc.prems(2) by simp
  next
    case False
    then have le: "lo \<le> hi" using Suc.prems(1) by simp
    have "\<exists>t. for_loop [lo..<hi] body s = Some t \<and> I hi t"
      using Suc.IH[OF le Suc.prems(2)] Suc.prems(3) by simp
    then obtain t where t: "for_loop [lo..<hi] body s = Some t" "I hi t" by blast
    obtain t' where t': "body hi t = Some t'" "I (Suc hi) t'"
      using Suc.prems(3)[OF le _ t(2)] by auto
    have "[lo..<Suc hi] = [lo..<hi] @ [hi]" using le by simp
    then show ?thesis using t t' by (simp add: for_loop_append)
  qed
qed

lemma dist_at_row0: "j \<le> length a \<Longrightarrow> dist_at a b 0 j = j"
  by (simp add: dist_at_def)

lemma dist_at_col0: "i \<le> length b \<Longrightarrow> dist_at a b i 0 = i"
  by (simp add: dist_at_def)

lemma dist_at_same:
  assumes "i < length b" "j < length a" "b ! i = a ! j"
  shows "dist_at a b (Suc i) (Suc j) = dist_at a b i j"
  using assms by (simp add: dist_at_def take_Suc_conv_app_nth edit_snoc_same)

lemma dist_at_diff:
  assumes "i < length b" "j < length a" "b ! i \<noteq> a ! j"
  shows "dist_at a b (Suc i) (Suc j) =
     min (dist_at a b i j + 1) (min (dist_at a b (Suc i) j + 1) (dist_at a b i (Suc j) + 1))"
proof -
  have "a ! j \<noteq> b ! i" using assms(3) by simp
  then show ?thesis
    using assms(1,2) by (simp add: dist_at_def take_Suc_conv_app_nth edit_snoc_diff)
qed

lemma init_rows:
  "\<exists>m. for_loop [0..<Suc n] (\<lambda>i m. set_row m i [i]) [] = Some m \<and> m = map (\<lambda>i. [i]) [0..<Suc n]"
  by (rule for_loop_inv[where I = "\<lambda>k m. m = map (\<lambda>i. [i]) [0..<k]"]) (auto simp: set_row_def)

lemma init_row0:
  assumes "length m = Suc p" "m ! 0 = [0]"
  shows "\<exists>m'. for_loop [0..<Suc n] (\<lambda>j m. set_cell m 0 j j) m = Some m' \<and>
     length m' = Suc p \<and> m' ! 0 = [0..<Suc n] \<and> (\<forall>k. 0 < k \<longrightarrow> m' ! k = m ! k)"
proof -
  have "\<exists>m'. for_loop [0..<Suc n] (\<lambda>j m. set_cell m 0 j j) m = Some m' \<and>
     (length m' = Suc p \<and> m' ! 0 = [0..<max 1 (Suc n)] \<and> (\<forall>k. 0 < k \<longrightarrow> m' ! k = m ! k))"
  proof (rule for_loop_inv[where I = "\<lambda>j m'. length m' = Suc p \<and> m' ! 0 = [0..<max 1 j] \<and> (\<forall>k. 0 < k \<longrightarrow> m' ! k = m ! k)"])
    show "0 \<le> Suc n" by simp
    show "length m = Suc p \<and> m ! 0 = [0..<max 1 0] \<and> (\<forall>k. 0 < k \<longrightarrow> m ! k = m ! k)"
      using assms by simp
  next
    fix k t
    assume "k < Suc n" and inv: "length t = Suc p \<and> t ! 0 = [0..<max 1 k] \<and> (\<forall>k. 0 < k \<longrightarrow> t ! k = m ! k)"
    show "\<exists>t'. set_cell t 0 k k = Some t' \<and>
        length t' = Suc p \<and> t' ! 0 = [0..<max 1 (Suc k)] \<and> (\<forall>k. 0 < k \<longrightarrow> t' ! k = m ! k)"
    proof (cases "k = 0")
      case True
      then show ?thesis using inv by (simp add: set_cell_def)
    next
      case False
      then have "max 1 k = k" "max 1 (Suc k) = Suc k" by simp_all
      then show ?thesis using inv by (simp add: set_cell_def)
    qed
  qed
  then show ?thesis by simp
qed

lemma fill_cell_step:
  assumes i: "1 \<le> i" "i \<le> length b" and j: "1 \<le> j" "j \<le> length a"
    and inv: "rows_inv a b i j m"
  shows "\<exists>m'. fill_cell a b i j m = Some m' \<and> rows_inv a b i (Suc j) m'"
proof -
  obtain i' j' where ij: "i = Suc i'" "j = Suc j'"
    using i(1) j(1) by (metis One_nat_def Suc_le_D)
  have len: "length m = Suc (length b)" and rowi: "m ! i = map (dist_at a b i) [0..<j]"
    and rowp: "m ! i' = map (dist_at a b i') [0..<Suc (length a)]"
    using inv by (simp_all add: rows_inv_def ij)
  have d: "cell m i' j' = Some (dist_at a b i' j')"
    using len rowp i j unfolding cell_def ij by (simp del: upt_Suc)
  have l: "cell m i j' = Some (dist_at a b i j')"
    using len rowi i j unfolding cell_def ij by (simp del: upt_Suc)
  have u: "cell m i' j = Some (dist_at a b i' j)"
    using len rowp i j unfolding cell_def ij by (simp del: upt_Suc)
  have ch: "charAt b i' = charAt a j' \<longleftrightarrow> b ! i' = a ! j'"
    using i j by (simp add: charAt_def ij)
  define v where "v = dist_at a b i j"
  have fc: "fill_cell a b i j m = set_cell m i j v"
  proof (cases "b ! i' = a ! j'")
    case True
    then show ?thesis
      using d ch i j dist_at_same[of i' b j' a] by (simp add: fill_cell_def ij v_def)
  next
    case False
    then show ?thesis
      using d l u ch i j dist_at_diff[of i' b j' a] by (simp add: fill_cell_def ij v_def)
  qed
  have sc: "set_cell m i j v = Some (m[i := m ! i @ [v]])"
    using len rowi i by (simp add: set_cell_def)
  have "rows_inv a b i (Suc j) (m[i := m ! i @ [v]])"
    using inv i unfolding rows_inv_def v_def by (auto simp del: upt_Suc simp add: upt_Suc_append)
  then show ?thesis using fc sc by simp
qed

lemma fill_row:
  assumes i: "1 \<le> i" "i \<le> length b" and inv: "rows_inv a b i 1 m"
  shows "\<exists>m'. for_loop [1..<Suc (length a)] (\<lambda>j m'. fill_cell a b i j m') m = Some m' \<and>
     rows_inv a b i (Suc (length a)) m'"
proof (rule for_loop_inv[where I = "\<lambda>j m'. rows_inv a b i j m'"])
  show "1 \<le> Suc (length a)" by simp
  show "rows_inv a b i 1 m" by (rule inv)
next
  fix k t
  assume "1 \<le> k" "k < Suc (length a)" "rows_inv a b i k t"
  then show "\<exists>t'. fill_cell a b i k t = Some t' \<and> rows_inv a b i (Suc k) t'"
    using fill_cell_step[OF i, of k a t] by simp
qed

lemma rows_inv_next:
  assumes "rows_inv a b i (Suc (length a)) m" "i < length b"
  shows "rows_inv a b (Suc i) 1 m"
  using assms unfolding rows_inv_def
  by (auto simp: less_Suc_eq dist_at_col0)

lemma fill_rows:
  assumes inv: "rows_inv a b 0 (Suc (length a)) m"
  shows "\<exists>m'. for_loop [1..<Suc (length b)]
            (\<lambda>i m. for_loop [1..<Suc (length a)] (\<lambda>j m'. fill_cell a b i j m') m) m = Some m' \<and>
     rows_inv a b (length b) (Suc (length a)) m'"
proof -
  let ?I = "\<lambda>i m'. rows_inv a b (i - 1) (Suc (length a)) m'"
  have "\<exists>m'. for_loop [1..<Suc (length b)]
            (\<lambda>i m. for_loop [1..<Suc (length a)] (\<lambda>j m'. fill_cell a b i j m') m) m = Some m' \<and>
     ?I (Suc (length b)) m'"
  proof (rule for_loop_inv[where I = ?I])
    show "1 \<le> Suc (length b)" by simp
    show "?I 1 m" using inv by simp
  next
    fix k t
    assume k: "1 \<le> k" "k < Suc (length b)" and t: "?I k t"
    have "rows_inv a b k 1 t"
      using rows_inv_next[of a b "k - 1" t] k t by simp
    then show "\<exists>t'. for_loop [1..<Suc (length a)] (\<lambda>j m'. fill_cell a b k j m') t = Some t' \<and> ?I (Suc k) t'"
      using fill_row[of k b a t] k by simp
  qed
  then show ?thesis by simp
qed

lemma levenshteinDistance_edit: "levenshteinDistance a b = Some (edit a b)"
proof -
  obtain m1 where m1: "for_loop [0..<Suc (length b)] (\<lambda>i m. set_row m i [i]) [] = Some m1"
    "m1 = map (\<lambda>i. [i]) [0..<Suc (length b)]"
    using init_rows[of "length b"] by blast
  have m1': "length m1 = Suc (length b)" "m1 ! 0 = [0]"
    "\<And>k. k \<le> length b \<Longrightarrow> m1 ! k = [k]"
    unfolding m1(2) by (simp_all del: upt_Suc add: nth_map_upt)
  obtain m2 where m2: "for_loop [0..<Suc (length a)] (\<lambda>j m. set_cell m 0 j j) m1 = Some m2"
    "length m2 = Suc (length b)" "m2 ! 0 = [0..<Suc (length a)]" "\<forall>k. 0 < k \<longrightarrow> m2 ! k = m1 ! k"
    using init_row0[OF m1'(1,2), of "length a"] by blast
  have "map (dist_at a b 0) [0..<Suc (length a)] = [0..<Suc (length a)]"
    by (rule map_idI) (simp add: dist_at_row0 del: upt_Suc)
  then have "rows_inv a b 0 (Suc (length a)) m2"
    using m2 m1'(3) unfolding rows_inv_def by simp
  then obtain m3 where m3: "for_loop [1..<Suc (length b)]
            (\<lambda>i m. for_loop [1..<Suc (length a)] (\<lambda>j m'. fill_cell a b i j m') m) m2 = Some m3"
     "rows_inv a b (length b) (Suc (length a)) m3"
    using fill_rows by blast
  have "cell m3 (length b) (length a) = Some (dist_at a b (length b) (length a))"
    using m3(2) unfolding rows_inv_def cell_def by (simp del: upt_Suc)
  then show ?thesis
    unfolding levenshteinDistance_def using m1(1) m2(1) m3(1) by (simp add: dist_at_def)
qed

lemma levenshteinDistance_lev: "levenshteinDistance a b = Some (lev a b)"
  by (simp add: levenshteinDistance_edit lev_eq_edit)

lemma lev_same: "lev x x = 0"
  by (induction x) simp_all

lemma lev_Nil: "lev [] s = length s"
  by (cases s) simp_all

section \<open>Substrings, trimming and the empty guess\<close>

lemma startsWith_iff: "startsWith s g \<longleftrightarrow> (\<exists>q. s = g @ q)"
  by (induction s g rule: startsWith.induct) auto

lemma js_includes_iff: "js_includes s g \<longleftrightarrow> (\<exists>p q. s = p @ g @ q)"
proof (induction s)
  case Nil
  then show ?case by auto
next
  case (Cons c s)
  show ?case
  proof
    assume "js_includes (c # s) g"
    then consider "startsWith (c # s) g" | "js_includes s g" by auto
    then show "\<exists>p q. c # s = p @ g @ q"
    proof cases
      case 1
      then obtain q where "c # s = g @ q" by (auto simp: startsWith_iff)
      then have "c # s = [] @ g @ q" by simp
      then show ?thesis by blast
    next
      case 2
      then obtain p q where "s = p @ g @ q" using Cons.IH by auto
      then have "c # s = (c # p) @ g @ q" by simp
      then show ?thesis by blast
    qed
  next
    assume "\<exists>p q. c # s = p @ g @ q"
    then obtain p q where pq: "c # s = p @ g @ q" by blast
    show "js_includes (c # s) g"
    proof (cases p)
      case Nil
      then have "startsWith (c # s) g" using pq by (auto simp: startsWith_iff)
      then show ?thesis by simp
    next
      case (Cons a p')
      then have "s = p' @ g @ q" using pq by simp
      then have "js_includes s g" using Cons.IH by blast
      then show ?thesis by simp
    qed
  qed
qed

lemma trim_empty_iff: "trim s = [] \<longleftrightarrow> (\<forall>c\<in>set s. isWhiteSpace c)"
proof
  assume "trim s = []"
  then have all: "\<forall>c\<in>set (dropWhile isWhiteSpace s). isWhiteSpace c"
    by (simp only: trim_def rev_is_Nil_conv dropWhile_eq_Nil_conv set_rev)
  have "dropWhile isWhiteSpace s = []"
  proof (rule ccontr)
    assume ne: "dropWhile isWhiteSpace s \<noteq> []"
    then have "\<not> isWhiteSpace (hd (dropWhile isWhiteSpace s))" by (rule hd_dropWhile)
    moreover have "hd (dropWhile isWhiteSpace s) \<in> set (dropWhile isWhiteSpace s)"
      using ne by (rule hd_in_set)
    ultimately show False using all by blast
  qed
  then show "\<forall>c\<in>set s. isWhiteSpace c" by (simp only: dropWhile_eq_Nil_conv)
next
  assume "\<forall>c\<in>set s. isWhiteSpace c"
  then have "dropWhile isWhiteSpace s = []" by (simp only: dropWhile_eq_Nil_conv)
  then show "trim s = []" by (simp add: trim_def del: dropWhile_eq_Nil_conv)
qed

lemma isWhiteSpace_toLowerCase_char: "isWhiteSpace (toLowerCase_char c) = isWhiteSpace c"
proof -
  let ?n = "of_char c :: nat"
  have lt: "?n < 256" by simp
  show ?thesis
  proof (cases "(65 \<le> ?n \<and> ?n \<le> 90) \<or> (192 \<le> ?n \<and> ?n \<le> 214) \<or> (216 \<le> ?n \<and> ?n \<le> 222)")
    case False
    then have "toLowerCase_char c = c" by (auto simp: toLowerCase_char_def Let_def)
    then show ?thesis by simp
  next
    case True
    then have "(of_char (char_of (?n + 32)) :: nat) = ?n + 32"
      by (auto simp: of_char_of)
    then show ?thesis using True by (auto simp: toLowerCase_char_def Let_def isWhiteSpace_def)
  qed
qed

lemma trim_toLowerCase_empty: "trim (toLowerCase s) = [] \<longleftrightarrow> trim s = []"
  by (simp add: trim_empty_iff toLowerCase_def isWhiteSpace_toLowerCase_char)

lemma checkMatch_empty_guess: "\<not> checkMatch [] target"
proof (cases target)
  case None
  then show ?thesis by (simp add: checkMatch_def)
next
  case (Some t)
  show ?thesis
  proof (cases "t = []")
    case True
    then show ?thesis using Some by (simp add: checkMatch_def)
  next
    case False
    then have "0 < length (toLowerCase t)" by (simp add: toLowerCase_def)
    then show ?thesis
      using Some False by (auto simp: checkMatch_def Let_def levenshteinDistance_lev)
  qed
qed

lemma isCorrect_nonempty: "isCorrect target s \<Longrightarrow> trim (userGuess s) \<noteq> []"
proof
  assume c: "isCorrect target s" and e: "trim (userGuess s) = []"
  then have "trim (toLowerCase (userGuess s)) = []" by (simp add: trim_toLowerCase_empty)
  then show False using c checkMatch_empty_guess by (simp add: isCorrect_def Let_def)
qed

section \<open>Scores, guesses and skips\<close>

lemma length_map_index [simp]: "length (map_index f i xs) = length xs"
  by (induction xs arbitrary: i) auto

lemma nth_map_index: "k < length xs \<Longrightarrow> map_index f i xs ! k = f (i + k) (xs ! k)"
proof (induction xs arbitrary: i k)
  case Nil
  then show ?case by simp
next
  case (Cons x xs)
  then show ?case by (cases k) auto
qed

lemma players_updateCurrentPlayerScore:
  "k < length (players s) \<Longrightarrow>
   players (updateCurrentPlayerScore points s) ! k =
     (if currentPlayerIndex s = Some k
      then (players s ! k)\<lparr>score := score (players s ! k) + points\<rparr>
      else players s ! k)"
  by (auto simp: updateCurrentPlayerScore_def nth_map_index)

lemma length_players_updateCurrentPlayerScore [simp]:
  "length (players (updateCurrentPlayerScore points s)) = length (players s)"
  by (simp add: updateCurrentPlayerScore_def)

lemma updateCurrentPlayerScore_frame:
  "updateCurrentPlayerScore points s = s\<lparr>players := players (updateCurrentPlayerScore points s)\<rparr>"
  by (simp add: updateCurrentPlayerScore_def)

lemma submit_status:
  "gameStatus (handleSubmitGuess s) =
     (case targetCountry s of
        None \<Rightarrow> gameStatus s
      | Some t \<Rightarrow>
          if trim (userGuess s) = [] \<or> gameStatus s \<noteq> PLAYING then gameStatus s
          else if isCorrect t s then SUCCESS
          else if lives s - 1 \<le> 0 then FAILURE else PLAYING)"
  by (simp add: handleSubmitGuess_def updateCurrentPlayerScore_def Let_def split: option.splits)

lemma submit_lives:
  "lives (handleSubmitGuess s) =
     (case targetCountry s of
        None \<Rightarrow> lives s
      | Some t \<Rightarrow>
          if trim (userGuess s) = [] \<or> gameStatus s \<noteq> PLAYING then lives s
          else if isCorrect t s then lives s
          else lives s - 1)"
  by (simp add: handleSubmitGuess_def updateCurrentPlayerScore_def Let_def split: option.splits)

lemma skip_status:
  "gameStatus (handleSkip s) = (if gameStatus s = PLAYING then FAILURE else gameStatus s)"
  by (simp add: handleSkip_def updateCurrentPlayerScore_def)

lemma skip_lives:
  "lives (handleSkip s) = (if gameStatus s = PLAYING then max 0 (lives s - 1) else lives s)"
  by (simp add: handleSkip_def updateCurrentPlayerScore_def)

lemma step_round_ok: "round_ok s \<Longrightarrow> round_ok (step a s)"
proof (cases a)
  case (SubmitGuess g)
  assume "round_ok s"
  then show ?thesis
    unfolding SubmitGuess round_ok_def step.simps submit_status submit_lives
    by (auto split: option.splits)
next
  case Skip
  assume "round_ok s"
  then show ?thesis
    unfolding Skip round_ok_def step.simps skip_status skip_lives by auto
qed

lemma step_into_failure:
  assumes "round_ok s" "gameStatus s \<noteq> FAILURE" "gameStatus (step a s) = FAILURE"
  shows "(a = Skip \<and> gameStatus s = PLAYING) \<or> lives (step a s) = 0"
proof (cases a)
  case (SubmitGuess g)
  show ?thesis
    using assms unfolding SubmitGuess round_ok_def step.simps submit_status submit_lives
    by (auto split: option.splits if_splits)
next
  case Skip
  show ?thesis
    using assms unfolding Skip step.simps skip_status by (auto split: if_splits)
qed

lemma step_into_success:
  assumes "gameStatus s \<noteq> SUCCESS" "gameStatus (step a s) = SUCCESS"
  shows "accepted a s"
proof (cases a)
  case (SubmitGuess g)
  show ?thesis
    using assms unfolding SubmitGuess step.simps submit_status
    by (auto split: option.splits if_splits)
next
  case Skip
  show ?thesis
    using assms unfolding Skip step.simps skip_status by (auto split: if_splits)
qed

lemma trace_first: "s \<in> set (trace s acts)"
  by (cases acts) auto

lemma trace_round_ok: "round_ok s \<Longrightarrow> t \<in> set (trace s acts) \<Longrightarrow> round_ok t"
proof (induction acts arbitrary: s)
  case Nil
  then show ?case by simp
next
  case (Cons a acts)
  then show ?case using step_round_ok[of s a] by auto
qed

lemma trace_failure_cause:
  assumes "round_ok s" "gameStatus s \<noteq> FAILURE" "t \<in> set (trace s acts)" "gameStatus t = FAILURE"
  shows "(\<exists>u\<in>set (trace s acts). lives u = 0) \<or> skipped_while_playing s acts"
  using assms
proof (induction acts arbitrary: s)
  case Nil
  then show ?case by simp
next
  case (Cons a acts)
  have t: "t \<in> set (trace (step a s) acts)" using Cons.prems by auto
  have ok: "round_ok (step a s)" using Cons.prems(1) by (rule step_round_ok)
  show ?case
  proof (cases "gameStatus (step a s) = FAILURE")
    case True
    then have "(a = Skip \<and> gameStatus s = PLAYING) \<or> lives (step a s) = 0"
      using step_into_failure Cons.prems(1,2) by blast
    then show ?thesis using trace_first[of "step a s" acts] by auto
  next
    case False
    then have "(\<exists>u\<in>set (trace (step a s) acts). lives u = 0) \<or> skipped_while_playing (step a s) acts"
      using Cons.IH[OF ok False t Cons.prems(4)] by simp
    then show ?thesis by auto
  qed
qed

lemma skipped_reaches_failure:
  "skipped_while_playing s acts \<Longrightarrow> \<exists>t\<in>set (trace s acts). gameStatus t = FAILURE"
proof (induction acts arbitrary: s)
  case Nil
  then show ?case by simp
next
  case (Cons a acts)
  show ?case
  proof (cases "a = Skip \<and> gameStatus s = PLAYING")
    case True
    then have "gameStatus (step a s) = FAILURE" by (simp add: skip_status)
    then show ?thesis using trace_first[of "step a s" acts] by auto
  next
    case False
    then have "skipped_while_playing (step a s) acts" using Cons.prems by auto
    then show ?thesis using Cons.IH by auto
  qed
qed

lemma trace_success_cause:
  assumes "gameStatus s \<noteq> SUCCESS" "t \<in> set (trace s acts)" "gameStatus t = SUCCESS"
  shows "guessed_correctly s acts"
  using assms
proof (induction acts arbitrary: s)
  case Nil
  then show ?case by simp
next
  case (Cons a acts)
  have t: "t \<in> set (trace (step a s) acts)" using Cons.prems by auto
  show ?case
  proof (cases "gameStatus (step a s) = SUCCESS")
    case True
    then show ?thesis using step_into_success Cons.prems(1) by auto
  next
    case False
    then show ?thesis using Cons.IH[OF False t Cons.prems(3)] by simp
  qed
qed

lemma round_start_state:
  assumes "geoData s0 = Some g"
  shows "gameStatus (roundTimer f (startNewRound b s0)) = PLAYING"
    and "lives (roundTimer f (startNewRound b s0)) = 3"
  using assms by (simp_all add: roundTimer_def startNewRound_def Let_def)

section \<open>Sorting the leaderboard and scaling the map\<close>

lemma insert_by_insort_key:
  fixes f :: "'a \<Rightarrow> int"
  shows "insert_by (\<lambda>a b. f b - f a) x ys = insort_key (\<lambda>e. - f e) x ys"
  by (induction ys) auto

lemma sort_by_sort_key:
  fixes f :: "'a \<Rightarrow> int"
  shows "sort_by (\<lambda>a b. f b - f a) xs = sort_key (\<lambda>e. - f e) xs"
  by (induction xs) (simp_all add: sort_by_def insert_by_insort_key)

lemma newEntries_eq:
  "newEntries now ps =
     map (\<lambda>p. \<lparr>entry_name = player_name p, entry_score = score p, date = now\<rparr>)
       (filter (\<lambda>p. 0 < score p) ps)"
  by (induction ps) (simp_all add: newEntries_def)

lemma sorted_desc_sort_by:
  "sorted_wrt (\<lambda>a b. entry_score b \<le> entry_score a)
     (sort_by (\<lambda>a b. entry_score b - entry_score a) xs)"
proof -
  have "sorted (map (\<lambda>e. - entry_score e) (sort_key (\<lambda>e. - entry_score e) xs))"
    by (rule sorted_sort_key)
  then show ?thesis by (simp add: sort_by_sort_key sorted_map)
qed

lemma stable_sort_by:
  "filter (\<lambda>e. entry_score e = k) (sort_by (\<lambda>a b. entry_score b - entry_score a) xs) =
   filter (\<lambda>e. entry_score e = k) xs"
proof -
  have "filter (\<lambda>e. - entry_score e = - k) (sort_key (\<lambda>e. - entry_score e) xs) =
        filter (\<lambda>e. - entry_score e = - k) xs"
    by (rule sort_key_stable)
  then show ?thesis by (simp add: sort_by_sort_key)
qed

lemma mset_sort_by: "mset (sort_by (\<lambda>a b. entry_score b - entry_score a) xs) = mset xs"
  by (simp add: sort_by_sort_key)

lemma sorted_wrt_take_drop:
  assumes "sorted_wrt R xs" "x \<in> set (take n xs)" "y \<in> set (drop n xs)"
  shows "R x y"
proof -
  have "sorted_wrt R (take n xs @ drop n xs)" using assms(1) by simp
  then show ?thesis using assms(2,3) unfolding sorted_wrt_append by blast
qed

lemma scale_divisor_Fin:
  assumes "0 < w" "0 < h"
  shows "scale_divisor (Fin dx) (Fin dy) (Fin w) (Fin h) = Fin (max (dx / w) (dy / h))"
  using assms by (simp add: scale_divisor_def)

lemma zoom_scale_Fin:
  assumes "0 \<le> dx" "0 \<le> dy" "0 < w" "0 < h"
  shows "zoom_scale (Fin dx) (Fin dy) (Fin w) (Fin h) =
     Fin (if max (dx / w) (dy / h) = 0 then 50
          else clamp (85 / 100 / max (dx / w) (dy / h)) 1 50)"
proof -
  have nn: "0 \<le> max (dx / w) (dy / h)" using assms by (simp add: le_max_iff_disj)
  show ?thesis
  proof (cases "max (dx / w) (dy / h) = 0")
    case True
    then show ?thesis using assms by (simp add: zoom_scale_def scale_divisor_Fin)
  next
    case False
    then show ?thesis using assms by (simp add: zoom_scale_def scale_divisor_Fin clamp_def)
  qed
qed

section \<open>The claims\<close>

text \<open>
  Claim C1, as the code has it. The typed guess is lower-cased and trimmed; the name is
  only lower-cased, never trimmed. With these two strings the judge answers true exactly
  when the name is not empty and (1) the two are equal, or (2) the guess is longer than 3
  and occurs in the name as a substring, or (3) their Levenshtein distance is at most
  0, 1, 2 or 3 for a name of length up to 3, up to 7, up to 12 or longer. An absent name
  never matches. (For a guess that is not empty after trimming, which is all the handler
  passes on, (1) to (3) already exclude the empty name.)
\<close>

theorem checkMatch_characterisation:
  "(checkMatch (trim (toLowerCase typed)) (Some target) \<longleftrightarrow>
      target \<noteq> [] \<and>
      (toLowerCase target = trim (toLowerCase typed) \<or>
       (3 < length (trim (toLowerCase typed)) \<and>
        (\<exists>p q. toLowerCase target = p @ trim (toLowerCase typed) @ q)) \<or>
       lev (toLowerCase target) (trim (toLowerCase typed)) \<le>
         (if length (toLowerCase target) \<le> 3 then 0
          else if length (toLowerCase target) \<le> 7 then 1
          else if length (toLowerCase target) \<le> 12 then 2 else 3))) \<and>
   \<not> checkMatch (trim (toLowerCase typed)) None"
  by (auto simp: checkMatch_def Let_def levenshteinDistance_lev js_includes_iff lev_same)

theorem checkMatch_characterisation_witness:
  "checkMatch (trim (toLowerCase ''itly '')) (Some ''Italy'') \<and>
   lev (toLowerCase ''Italy'') (trim (toLowerCase ''itly '')) = 1"
proof -
  have a: "trim (toLowerCase ''itly '') = ''itly''" by code_simp
  have b: "toLowerCase ''Italy'' = ''italy''" by code_simp
  have c: "lev ''italy'' ''itly'' = 1" by code_simp
  show ?thesis
    using checkMatch_characterisation [of "''itly ''" "''Italy''"] unfolding a b c by simp
qed

text \<open>
  The claim as written, with the name trimmed too, fails for a name that carries white
  space: "UK " and "uk" are equal once both are trimmed and lower-cased, yet the judge
  compares "uk " with "uk", finds distance 1 on a name of length 3 and answers false.
\<close>

theorem checkMatch_name_not_trimmed:
  "trim (toLowerCase ''UK '') = trim (toLowerCase ''uk'') \<and>
   \<not> checkMatch (trim (toLowerCase ''uk'')) (Some ''UK '')"
  by code_simp

text \<open>
  Claim C2, as the code has it. From the start of a round, along every sequence of
  submitted guesses and skips: the lives stay between 0 and 3; the status reaches
  \<open>FAILURE\<close> exactly when the lives reach 0 or a skip was called while the status was
  \<open>PLAYING\<close>; and the status reaches \<open>SUCCESS\<close> only if a guess of the sequence was
  submitted while \<open>PLAYING\<close> and judged correct.
\<close>

theorem round_lifecycle:
  assumes "geoData s0 = Some g"
  shows "(\<forall>t\<in>set (trace (roundTimer f (startNewRound b s0)) acts). 0 \<le> lives t \<and> lives t \<le> 3) \<and>
     ((\<exists>t\<in>set (trace (roundTimer f (startNewRound b s0)) acts). gameStatus t = FAILURE) \<longleftrightarrow>
        (\<exists>t\<in>set (trace (roundTimer f (startNewRound b s0)) acts). lives t = 0) \<or>
        skipped_while_playing (roundTimer f (startNewRound b s0)) acts) \<and>
     ((\<exists>t\<in>set (trace (roundTimer f (startNewRound b s0)) acts). gameStatus t = SUCCESS) \<longrightarrow>
        guessed_correctly (roundTimer f (startNewRound b s0)) acts)"
proof -
  let ?s = "roundTimer f (startNewRound b s0)"
  have st: "gameStatus ?s = PLAYING" and lv: "lives ?s = 3"
    using round_start_state[OF assms] by simp_all
  have ok: "round_ok ?s" by (simp add: round_ok_def st lv)
  have all: "round_ok t" if "t \<in> set (trace ?s acts)" for t
    using ok that by (rule trace_round_ok)
  have 1: "\<forall>t\<in>set (trace ?s acts). 0 \<le> lives t \<and> lives t \<le> 3"
    using all by (auto simp: round_ok_def)
  have 2: "(\<exists>t\<in>set (trace ?s acts). gameStatus t = FAILURE) \<longleftrightarrow>
        (\<exists>t\<in>set (trace ?s acts). lives t = 0) \<or> skipped_while_playing ?s acts"
  proof
    assume "\<exists>t\<in>set (trace ?s acts). gameStatus t = FAILURE"
    then show "(\<exists>t\<in>set (trace ?s acts). lives t = 0) \<or> skipped_while_playing ?s acts"
      using trace_failure_cause[OF ok] st by auto
  next
    assume "(\<exists>t\<in>set (trace ?s acts). lives t = 0) \<or> skipped_while_playing ?s acts"
    then show "\<exists>t\<in>set (trace ?s acts). gameStatus t = FAILURE"
    proof
      assume "\<exists>t\<in>set (trace ?s acts). lives t = 0"
      then obtain t where "t \<in> set (trace ?s acts)" "lives t = 0" by blast
      then show ?thesis using all[of t] by (auto simp: round_ok_def)
    next
      assume "skipped_while_playing ?s acts"
      then show ?thesis by (rule skipped_reaches_failure)
    qed
  qed
  have 3: "(\<exists>t\<in>set (trace ?s acts). gameStatus t = SUCCESS) \<longrightarrow> guessed_correctly ?s acts"
    using trace_success_cause[of ?s _ acts] st by auto
  show ?thesis using 1 2 3 by blast
qed

theorem round_lifecycle_witness:
  "geoData (loaded\<lparr>players := [player ''1'' ''Ann'' 0]\<rparr>) = Some [italy, france] \<and>
   skipped_while_playing playing_italy [SubmitGuess ''rome'', Skip] \<and>
   (\<exists>t\<in>set (trace playing_italy [SubmitGuess ''rome'', Skip]). gameStatus t = FAILURE)"
proof -
  have g: "geoData (loaded\<lparr>players := [player ''1'' ''Ann'' 0]\<rparr>) = Some [italy, france]"
    by (simp add: loaded_def)
  have sk: "skipped_while_playing playing_italy [SubmitGuess ''rome'', Skip]"
    by code_simp
  show ?thesis
    using round_lifecycle [OF g, of italy True "[SubmitGuess ''rome'', Skip]"] g sk
    unfolding playing_italy_def by blast
qed

text \<open>
  The claim as written counts every call of skip. A skip after a correct guess is ignored
  by the guard of \<open>handleSkip\<close>: the skip was called, the lives are still 3 and the
  status never becomes \<open>FAILURE\<close>.
\<close>

theorem skip_after_success_no_failure:
  "Skip \<in> set [SubmitGuess ''italy'', Skip] \<and>
   map gameStatus (trace playing_italy [SubmitGuess ''italy'', Skip]) = [PLAYING, SUCCESS, SUCCESS] \<and>
   map lives (trace playing_italy [SubmitGuess ''italy'', Skip]) = [3, 3, 3]"
  by code_simp

text \<open>
  Claim C3, as the code has it. The completions of the two asynchronous requests apply
  their result to whatever state they find, without looking at the round they were issued
  for: an answer of the details service replaces \<open>countryDetails\<close>, a failed request
  sets the fallback details of the feature it was issued for, and a hint is appended to
  \<open>hints\<close>. This holds in particular after a later round has set another target: the
  target stays that of the later round while the details are those of the earlier
  request, and a hint asked for earlier lands in the emptied hint list of the new round.
\<close>

theorem async_completions_unguarded:
  "countryDetails (detailsResolved f (Some d) s) = Some (detailsFrom f d) \<and>
   countryDetails (detailsRejected f s) = Some (fallbackDetails f) \<and>
   hints (hintResolved h s) = hints s @ [h] \<and>
   targetCountry (detailsResolved f (Some d) (roundTimer f' s)) = Some f' \<and>
   countryDetails (detailsResolved f (Some d) (roundTimer f' s)) = Some (detailsFrom f d) \<and>
   targetCountry (hintResolved h (roundTimer f' (startNewRound b s))) = Some f' \<and>
   hints (hintResolved h (roundTimer f' (startNewRound b s))) =
     (if geoData s = None then hints s @ [h] else [h])"
  by (simp add: detailsResolved_def detailsRejected_def hintResolved_def roundTimer_def
      startNewRound_def Let_def split: option.splits)

theorem async_completions_unguarded_witness:
  "countryDetails (detailsResolved italy (Some rest_italy) (roundTimer france loaded)) =
     Some (detailsFrom italy rest_italy) \<and>
   targetCountry (detailsResolved italy (Some rest_italy) (roundTimer france loaded)) = Some france"
  using async_completions_unguarded [where f = italy and d = rest_italy and f' = france and s = loaded]
  by simp

text \<open>
  A run against the claim as written: a round on Italy is skipped, the next round draws
  France and receives the details of France; then the answer for Italy arrives and
  replaces them, and the hint asked for during the round on Italy is shown in the round
  on France.
\<close>

theorem late_details_override_next_round:
  "targetCountry
     (detailsResolved italy (Some rest_italy)
       (detailsResolved france (Some rest_france)
         (roundTimer france (startNewRound False (handleSkip playing_italy))))) = Some france \<and>
   countryDetails
     (detailsResolved france (Some rest_france)
       (roundTimer france (startNewRound False (handleSkip playing_italy)))) =
     Some (detailsFrom france rest_france) \<and>
   countryDetails
     (detailsResolved italy (Some rest_italy)
       (detailsResolved france (Some rest_france)
         (roundTimer france (startNewRound False (handleSkip playing_italy))))) =
     Some (detailsFrom italy rest_italy) \<and>
   details_name (detailsFrom italy rest_italy) = ''Italy'' \<and>
   details_name (detailsFrom france rest_france) = ''France'' \<and>
   hints
     (hintResolved ''A boot-shaped peninsula.''
       (roundTimer france (startNewRound False (handleSkip (handleRequestHint playing_italy))))) =
     [''A boot-shaped peninsula.''] \<and>
   targetCountry
     (hintResolved ''A boot-shaped peninsula.''
       (roundTimer france (startNewRound False (handleSkip (handleRequestHint playing_italy))))) =
     Some france"
  by code_simp

text \<open>
  Claim C4. For all strings the distance computed by \<open>levenshteinDistance\<close> is the
  reference Levenshtein distance: every table read meets a number and the result is
  \<open>lev a b\<close>. In particular the distance between the empty string and \<open>s\<close>, either way
  round, is the length of \<open>s\<close>, the distance from a string to itself is 0, and the distance
  between "kitten" and "sitting" is 3.
\<close>

theorem levenshteinDistance_correct:
  "levenshteinDistance a b = Some (lev a b) \<and>
   levenshteinDistance [] s = Some (length s) \<and>
   levenshteinDistance s [] = Some (length s) \<and>
   levenshteinDistance x x = Some 0 \<and>
   levenshteinDistance ''kitten'' ''sitting'' = Some 3"
  by (simp add: levenshteinDistance_lev lev_same lev_Nil)

theorem levenshteinDistance_correct_witness:
  "levenshteinDistance ''abc'' ''abd'' = Some 1 \<and> levenshteinDistance [] ''abc'' = Some 3"
  using levenshteinDistance_correct [of "''abc''" "''abd''" "''abc''" "''abc''"] by simp

text \<open>
  Claim C5, as the code has it. For extents \<open>dx\<close>, \<open>dy\<close> that are not negative and a
  canvas of positive width and height, the scale is \<open>clamp(0.85 / max(dx/w, dy/h), 1, 50)\<close>
  unless both extents are 0, and 50 when they are; it is always a finite number between 1
  and 50, hence never \<open>NaN\<close>. A box that spans the canvas gives 1 and a point-like box
  gives 50. The divisor \<open>max(dx/w, dy/h)\<close> is zero exactly for the point-like box: there
  the code does divide by zero, JavaScript answers \<open>Infinity\<close>, and the upper bound of
  the clamp turns it into 50.
\<close>

theorem zoom_scale_clamped:
  assumes "0 \<le> dx" "0 \<le> dy" "0 < w" "0 < h"
  shows "zoom_scale (Fin dx) (Fin dy) (Fin w) (Fin h) =
       Fin (if dx = 0 \<and> dy = 0 then 50 else clamp (85 / 100 / max (dx / w) (dy / h)) 1 50) \<and>
     (\<exists>r. zoom_scale (Fin dx) (Fin dy) (Fin w) (Fin h) = Fin r \<and> 1 \<le> r \<and> r \<le> 50) \<and>
     zoom_scale (Fin w) (Fin h) (Fin w) (Fin h) = Fin 1 \<and>
     zoom_scale (Fin 0) (Fin 0) (Fin w) (Fin h) = Fin 50 \<and>
     (scale_divisor (Fin dx) (Fin dy) (Fin w) (Fin h) = Fin 0 \<longleftrightarrow> dx = 0 \<and> dy = 0)"
proof -
  have z: "max (dx / w) (dy / h) = 0 \<longleftrightarrow> dx = 0 \<and> dy = 0"
  proof
    assume m: "max (dx / w) (dy / h) = 0"
    have "0 \<le> dx / w" "0 \<le> dy / h" using assms by simp_all
    then have "dx / w = 0" "dy / h = 0" using m by (auto simp: max_def split: if_splits)
    then show "dx = 0 \<and> dy = 0" using assms by simp
  next
    assume "dx = 0 \<and> dy = 0"
    then show "max (dx / w) (dy / h) = 0" by simp
  qed
  have 1: "zoom_scale (Fin dx) (Fin dy) (Fin w) (Fin h) =
       Fin (if dx = 0 \<and> dy = 0 then 50 else clamp (85 / 100 / max (dx / w) (dy / h)) 1 50)"
    using zoom_scale_Fin[OF assms] z by simp
  have 2: "\<exists>r. zoom_scale (Fin dx) (Fin dy) (Fin w) (Fin h) = Fin r \<and> 1 \<le> r \<and> r \<le> 50"
    unfolding 1 by (simp add: clamp_def)
  have 3: "zoom_scale (Fin w) (Fin h) (Fin w) (Fin h) = Fin 1"
    using assms(3,4) by (simp add: zoom_scale_def scale_divisor_def)
  have 4: "zoom_scale (Fin 0) (Fin 0) (Fin w) (Fin h) = Fin 50"
    using assms(3,4) by (simp add: zoom_scale_def scale_divisor_def)
  have 5: "scale_divisor (Fin dx) (Fin dy) (Fin w) (Fin h) = Fin 0 \<longleftrightarrow> dx = 0 \<and> dy = 0"
    using z assms by (simp add: scale_divisor_Fin)
  show ?thesis using 1 2 3 4 5 by blast
qed

theorem zoom_scale_clamped_witness:
  "(0::real) \<le> 400 \<and> (0::real) \<le> 150 \<and> (0::real) < 800 \<and> (0::real) < 600 \<and>
   zoom_scale (Fin 400) (Fin 150) (Fin 800) (Fin 600) = Fin (17 / 10) \<and>
   zoom_scale (Fin 0) (Fin 0) (Fin 800) (Fin 600) = Fin 50"
  using zoom_scale_clamped [of 400 150 800 600] by (simp add: clamp_def)

text \<open>
  The claim as written says that no division by zero takes place. For a point-like box on
  an 800 by 600 canvas the divisor of \<open>0.85 / Math.max(dx / width, dy / height)\<close> is 0
  and the quotient is \<open>Infinity\<close>.
\<close>

theorem point_shape_divides_by_zero:
  "scale_divisor (Fin 0) (Fin 0) (Fin 800) (Fin 600) = Fin 0 \<and>
   js_div (Fin (85 / 100)) (scale_divisor (Fin 0) (Fin 0) (Fin 800) (Fin 600)) = PInf"
  by (simp add: scale_divisor_def)

text \<open>
  Claim C6. With the catalogue loaded, starting a session sets the turn pointer to the
  first player; a first round start leaves the pointer alone and every other round start
  advances it to \<open>(index + 1) mod playerCount\<close>; so with three players the pointers seen
  at the session start and at the five round starts after it are 0, 1, 2, 0, 1, 2.
\<close>

theorem turn_rotation:
  assumes "geoData s = Some g"
  shows "currentPlayerIndex (startGameSession s) = Some 0 \<and>
     currentPlayerIndex (startNewRound True s) = currentPlayerIndex s \<and>
     (players s \<noteq> [] \<and> currentPlayerIndex s = Some i \<longrightarrow>
        currentPlayerIndex (startNewRound False s) = Some ((i + 1) mod length (players s))) \<and>
     (length (players s) = 3 \<longrightarrow>
        turns 5 (startGameSession s) = [Some 0, Some 1, Some 2, Some 0, Some 1, Some 2])"
proof -
  have 1: "currentPlayerIndex (startGameSession s) = Some 0"
    using assms by (simp add: startGameSession_def startNewRound_def Let_def)
  have 2: "currentPlayerIndex (startNewRound True s) = currentPlayerIndex s"
    using assms by (simp add: startNewRound_def Let_def)
  have 3: "players s \<noteq> [] \<and> currentPlayerIndex s = Some i \<longrightarrow>
        currentPlayerIndex (startNewRound False s) = Some ((i + 1) mod length (players s))"
    using assms by (simp add: startNewRound_def Let_def next_index_def)
  have keep: "geoData (startNewRound False t) = geoData t"
    "players (startNewRound False t) = players t" for t
    by (simp_all add: startNewRound_def Let_def split: option.splits)
  have rot: "currentPlayerIndex (startNewRound False t) = Some ((k + 1) mod 3)"
    if "geoData t = Some g" "length (players t) = 3" "currentPlayerIndex t = Some k" for t k
    using that by (simp add: startNewRound_def Let_def next_index_def)
  have 4: "turns 5 (startGameSession s) = [Some 0, Some 1, Some 2, Some 0, Some 1, Some 2]"
    if len: "length (players s) = 3"
  proof -
    let ?r = "startNewRound False"
    let ?t0 = "startGameSession s"
    have ne: "players s \<noteq> []" using len by auto
    have g0: "geoData ?t0 = Some g" "length (players ?t0) = 3"
      using assms len ne by (simp_all add: startGameSession_def startNewRound_def Let_def)
    have i1: "currentPlayerIndex (?r ?t0) = Some 1"
      using rot[OF g0 1] by simp
    have g1: "geoData (?r ?t0) = Some g" "length (players (?r ?t0)) = 3"
      using g0 by (simp_all add: keep)
    have i2: "currentPlayerIndex (?r (?r ?t0)) = Some 2"
      using rot[OF g1 i1] by simp
    have g2: "geoData (?r (?r ?t0)) = Some g" "length (players (?r (?r ?t0))) = 3"
      using g1 by (simp_all add: keep)
    have i3: "currentPlayerIndex (?r (?r (?r ?t0))) = Some 0"
      using rot[OF g2 i2] by simp
    have g3: "geoData (?r (?r (?r ?t0))) = Some g" "length (players (?r (?r (?r ?t0)))) = 3"
      using g2 by (simp_all add: keep)
    have i4: "currentPlayerIndex (?r (?r (?r (?r ?t0)))) = Some 1"
      using rot[OF g3 i3] by simp
    have g4: "geoData (?r (?r (?r (?r ?t0)))) = Some g" "length (players (?r (?r (?r (?r ?t0))))) = 3"
      using g3 by (simp_all add: keep)
    have i5: "currentPlayerIndex (?r (?r (?r (?r (?r ?t0))))) = Some 2"
      using rot[OF g4 i4] by simp
    show ?thesis
      by (simp add: eval_nat_numeral 1 i1 i2 i3 i4 i5)
  qed
  show ?thesis using 1 2 3 4 by blast
qed

theorem turn_rotation_witness:
  "geoData (loaded\<lparr>players := [player ''1'' ''Ann'' 0, player ''2'' ''Bob'' 0, player ''3'' ''Cy'' 0]\<rparr>) =
     Some [italy, france] \<and>
   turns 5 (startGameSession
     (loaded\<lparr>players := [player ''1'' ''Ann'' 0, player ''2'' ''Bob'' 0, player ''3'' ''Cy'' 0]\<rparr>)) =
     [Some 0, Some 1, Some 2, Some 0, Some 1, Some 2]"
proof -
  let ?s = "loaded\<lparr>players := [player ''1'' ''Ann'' 0, player ''2'' ''Bob'' 0, player ''3'' ''Cy'' 0]\<rparr>"
  have g: "geoData ?s = Some [italy, france]" by (simp add: loaded_def)
  have l: "length (players ?s) = 3" by simp
  show ?thesis using turn_rotation [OF g, of 0] g l by blast
qed

text \<open>
  Claim C7. Ending a game merges the ledger with the entries of the players whose score
  is positive, sorts the merged list by descending score and keeps the first 50: the new
  ledger is the first 50 of a list that is a rearrangement of the merged list, is
  non-increasing by score and keeps entries of equal score in their order of the merged
  list; what is cut off scores no more than anything kept. So the new ledger has at most
  50 entries and is non-increasing by score.
\<close>

theorem handleEndGame_leaderboard:
  "\<exists>sorted_all.
     leaderboard (handleEndGame now s) = take 50 sorted_all \<and>
     mset sorted_all =
       mset (leaderboard s @
             map (\<lambda>p. \<lparr>entry_name = player_name p, entry_score = score p, date = now\<rparr>)
               (filter (\<lambda>p. 0 < score p) (players s))) \<and>
     sorted_wrt (\<lambda>a b. entry_score b \<le> entry_score a) sorted_all \<and>
     (\<forall>k. filter (\<lambda>e. entry_score e = k) sorted_all =
          filter (\<lambda>e. entry_score e = k)
            (leaderboard s @
             map (\<lambda>p. \<lparr>entry_name = player_name p, entry_score = score p, date = now\<rparr>)
               (filter (\<lambda>p. 0 < score p) (players s)))) \<and>
     (\<forall>x\<in>set (take 50 sorted_all). \<forall>y\<in>set (drop 50 sorted_all).
        entry_score y \<le> entry_score x) \<and>
     length (leaderboard (handleEndGame now s)) \<le> 50 \<and>
     sorted_wrt (\<lambda>a b. entry_score b \<le> entry_score a) (leaderboard (handleEndGame now s))"
proof -
  let ?merged = "leaderboard s @ newEntries now (players s)"
  let ?all = "sort_by (\<lambda>a b. entry_score b - entry_score a) ?merged"
  have lb: "leaderboard (handleEndGame now s) = take 50 ?all"
    by (simp add: handleEndGame_def updatedLeaderboard_def)
  have srt: "sorted_wrt (\<lambda>a b. entry_score b \<le> entry_score a) ?all"
    by (rule sorted_desc_sort_by)
  have 1: "mset ?all = mset (leaderboard s @
             map (\<lambda>p. \<lparr>entry_name = player_name p, entry_score = score p, date = now\<rparr>)
               (filter (\<lambda>p. 0 < score p) (players s)))"
    by (simp add: mset_sort_by newEntries_eq)
  have 2: "\<forall>k. filter (\<lambda>e. entry_score e = k) ?all =
          filter (\<lambda>e. entry_score e = k)
            (leaderboard s @
             map (\<lambda>p. \<lparr>entry_name = player_name p, entry_score = score p, date = now\<rparr>)
               (filter (\<lambda>p. 0 < score p) (players s)))"
    by (simp only: stable_sort_by newEntries_eq) simp
  have 3: "\<forall>x\<in>set (take 50 ?all). \<forall>y\<in>set (drop 50 ?all). entry_score y \<le> entry_score x"
    using sorted_wrt_take_drop[OF srt] by blast
  have 4: "length (leaderboard (handleEndGame now s)) \<le> 50" by (simp add: lb)
  have 5: "sorted_wrt (\<lambda>a b. entry_score b \<le> entry_score a) (leaderboard (handleEndGame now s))"
    unfolding lb using srt by (rule sorted_wrt_take)
  show ?thesis using lb srt 1 2 3 4 5 by blast
qed

theorem handleEndGame_leaderboard_witness:
  "leaderboard (handleEndGame ''2024-01-01''
       (loaded\<lparr>players := [player ''1'' ''A'' (- 5), player ''2'' ''B'' 10]\<rparr>)) =
     [\<lparr>entry_name = ''B'', entry_score = 10, date = ''2024-01-01''\<rparr>] \<and>
   length (leaderboard (handleEndGame ''2024-01-01''
       (loaded\<lparr>players := [player ''1'' ''A'' (- 5), player ''2'' ''B'' 10]\<rparr>))) \<le> 50"
proof -
  let ?s = "loaded\<lparr>players := [player ''1'' ''A'' (- 5), player ''2'' ''B'' 10]\<rparr>"
  have e: "leaderboard (handleEndGame ''2024-01-01'' ?s) =
     [\<lparr>entry_name = ''B'', entry_score = 10, date = ''2024-01-01''\<rparr>]"
    by code_simp
  have "length (leaderboard (handleEndGame ''2024-01-01'' ?s)) \<le> 50"
    using handleEndGame_leaderboard [of "''2024-01-01''" ?s] by blast
  then show ?thesis using e by blast
qed

text \<open>
  Claim C8. \<open>handleSkip\<close> changes nothing unless the status is \<open>PLAYING\<close>. When it is,
  the lives become \<open>max(0, lives - 1)\<close>, the status becomes \<open>FAILURE\<close> whatever the lives
  are, the score of the player at the turn pointer drops by 5, every other player is
  unchanged, and so is the rest of the state.
\<close>

theorem handleSkip_semantics:
  "(gameStatus s \<noteq> PLAYING \<longrightarrow> handleSkip s = s) \<and>
   (gameStatus s = PLAYING \<longrightarrow>
      handleSkip s = s\<lparr>lives := max 0 (lives s - 1), players := players (handleSkip s),
                       gameStatus := FAILURE\<rparr> \<and>
      lives (handleSkip s) = max 0 (lives s - 1) \<and>
      gameStatus (handleSkip s) = FAILURE \<and>
      length (players (handleSkip s)) = length (players s) \<and>
      (\<forall>k<length (players s).
         players (handleSkip s) ! k =
           (if currentPlayerIndex s = Some k
            then (players s ! k)\<lparr>score := score (players s ! k) - 5\<rparr>
            else players s ! k)))"
proof (cases "gameStatus s = PLAYING")
  case False
  then show ?thesis by (simp add: handleSkip_def)
next
  case True
  let ?s1 = "s\<lparr>lives := max 0 (lives s - 1)\<rparr>"
  have hs: "handleSkip s = (updateCurrentPlayerScore (- 5) ?s1)\<lparr>gameStatus := FAILURE\<rparr>"
    using True by (simp add: handleSkip_def)
  have pl: "players (handleSkip s) = players (updateCurrentPlayerScore (- 5) ?s1)"
    by (simp add: hs)
  have 1: "handleSkip s = s\<lparr>lives := max 0 (lives s - 1), players := players (handleSkip s),
                       gameStatus := FAILURE\<rparr>"
    unfolding pl unfolding hs by (simp add: updateCurrentPlayerScore_def)
  have 2: "lives (handleSkip s) = max 0 (lives s - 1)" "gameStatus (handleSkip s) = FAILURE"
    by (simp_all add: hs updateCurrentPlayerScore_def)
  have 3: "length (players (handleSkip s)) = length (players s)"
    by (simp add: pl)
  have 4: "players (handleSkip s) ! k =
           (if currentPlayerIndex s = Some k
            then (players s ! k)\<lparr>score := score (players s ! k) - 5\<rparr>
            else players s ! k)" if "k < length (players s)" for k
    using that players_updateCurrentPlayerScore[of k ?s1 "- 5"] by (simp add: pl)
  show ?thesis using True 1 2 3 4 by blast
qed

theorem handleSkip_semantics_witness:
  "gameStatus playing_italy = PLAYING \<and>
   lives (handleSkip playing_italy) = 2 \<and>
   gameStatus (handleSkip playing_italy) = FAILURE \<and>
   map score (players (handleSkip playing_italy)) = [- 5] \<and>
   handleSkip (handleSkip playing_italy) = handleSkip playing_italy"
proof -
  have p: "gameStatus playing_italy = PLAYING" by code_simp
  have l: "lives playing_italy = 3" by code_simp
  have sc: "map score (players (handleSkip playing_italy)) = [- 5]" by code_simp
  have f: "gameStatus (handleSkip playing_italy) \<noteq> PLAYING"
    using handleSkip_semantics [of playing_italy] p by simp
  have "lives (handleSkip playing_italy) = 2" "gameStatus (handleSkip playing_italy) = FAILURE"
    using handleSkip_semantics [of playing_italy] p l by simp_all
  moreover have "handleSkip (handleSkip playing_italy) = handleSkip playing_italy"
    using handleSkip_semantics [of "handleSkip playing_italy"] f by blast
  ultimately show ?thesis using p sc by blast
qed

text \<open>
  Claim C9, as the code has it. \<open>handleSubmitGuess\<close> with a guess that is empty after
  trimming, or with a status other than \<open>PLAYING\<close>, returns the state unchanged, and
  \<open>addPlayer\<close> with a name that is empty after trimming returns the state unchanged.
  \<open>addPlayer\<close> does not look at the session: with a name that is not empty it appends
  the new player with score 0 and the next colour in every state.
\<close>

theorem invalid_input_noop:
  "(trim (userGuess s) = [] \<or> gameStatus s \<noteq> PLAYING \<longrightarrow> handleSubmitGuess s = s) \<and>
   (trim (newPlayerName s) = [] \<longrightarrow> addPlayer now s = s) \<and>
   (trim (newPlayerName s) \<noteq> [] \<longrightarrow>
      players (addPlayer now s) =
        players s @ [\<lparr>player_id = now, player_name = trim (newPlayerName s), score = 0,
                      color = PLAYER_COLORS ! (length (players s) mod 6)\<rparr>])"
  by (auto simp: handleSubmitGuess_def addPlayer_def Let_def PLAYER_COLORS_def split: option.splits)

theorem invalid_input_noop_witness:
  "trim (userGuess (playing_italy\<lparr>userGuess := ''  ''\<rparr>)) = [] \<and>
   handleSubmitGuess (playing_italy\<lparr>userGuess := ''  ''\<rparr>) = playing_italy\<lparr>userGuess := ''  ''\<rparr> \<and>
   trim (newPlayerName (playing_italy\<lparr>newPlayerName := '' ''\<rparr>)) = [] \<and>
   addPlayer ''17'' (playing_italy\<lparr>newPlayerName := '' ''\<rparr>) = playing_italy\<lparr>newPlayerName := '' ''\<rparr>"
proof -
  have a: "trim (userGuess (playing_italy\<lparr>userGuess := ''  ''\<rparr>)) = []" by code_simp
  have b: "trim (newPlayerName (playing_italy\<lparr>newPlayerName := '' ''\<rparr>)) = []" by code_simp
  show ?thesis
    using invalid_input_noop [of "playing_italy\<lparr>userGuess := ''  ''\<rparr>" "''17''"]
      invalid_input_noop [of "playing_italy\<lparr>newPlayerName := '' ''\<rparr>" "''17''"] a b
    by blast
qed

text \<open>
  The claim as written has \<open>addPlayer\<close> rejected while a session is active. In the
  running round on Italy, and again between two rounds of the same session, a typed name
  is added to the roster.
\<close>

theorem addPlayer_during_session:
  "gameStatus (playing_italy\<lparr>newPlayerName := ''Bob''\<rparr>) = PLAYING \<and>
   targetCountry (playing_italy\<lparr>newPlayerName := ''Bob''\<rparr>) = Some italy \<and>
   map player_name (players (playing_italy\<lparr>newPlayerName := ''Bob''\<rparr>)) = [''Ann''] \<and>
   map player_name (players (addPlayer ''17'' (playing_italy\<lparr>newPlayerName := ''Bob''\<rparr>))) =
     [''Ann'', ''Bob''] \<and>
   map player_name
     (players (addPlayer ''17''
        (startNewRound False (handleSkip (playing_italy\<lparr>newPlayerName := ''Bob''\<rparr>))))) =
     [''Ann'', ''Bob'']"
  by code_simp

text \<open>
  Claim C10. In a state with status \<open>PLAYING\<close> and a guess that the judge accepts for
  the target, \<open>handleSubmitGuess\<close> changes only the status, to \<open>SUCCESS\<close>, and the
  roster: the lives, the hints, the target and all other cells are as before, the player
  at the turn pointer has 5 more points, and every other player is unchanged.
\<close>

theorem correct_guess_frame:
  assumes "gameStatus s = PLAYING" and "targetCountry s = Some target" and "isCorrect target s"
  shows "handleSubmitGuess s = s\<lparr>gameStatus := SUCCESS, players := players (handleSubmitGuess s)\<rparr> \<and>
     gameStatus (handleSubmitGuess s) = SUCCESS \<and>
     lives (handleSubmitGuess s) = lives s \<and>
     hints (handleSubmitGuess s) = hints s \<and>
     targetCountry (handleSubmitGuess s) = targetCountry s \<and>
     length (players (handleSubmitGuess s)) = length (players s) \<and>
     (\<forall>k<length (players s).
        players (handleSubmitGuess s) ! k =
          (if currentPlayerIndex s = Some k
           then (players s ! k)\<lparr>score := score (players s ! k) + 5\<rparr>
           else players s ! k))"
proof -
  let ?s1 = "s\<lparr>gameStatus := SUCCESS\<rparr>"
  have ne: "trim (userGuess s) \<noteq> []" using assms(3) by (rule isCorrect_nonempty)
  have hs: "handleSubmitGuess s = updateCurrentPlayerScore 5 ?s1"
    using assms ne by (simp add: handleSubmitGuess_def)
  have 1: "handleSubmitGuess s = s\<lparr>gameStatus := SUCCESS, players := players (handleSubmitGuess s)\<rparr>"
    unfolding hs by (simp add: updateCurrentPlayerScore_def)
  have 2: "gameStatus (handleSubmitGuess s) = SUCCESS" "lives (handleSubmitGuess s) = lives s"
    "hints (handleSubmitGuess s) = hints s" "targetCountry (handleSubmitGuess s) = targetCountry s"
    by (simp_all add: hs updateCurrentPlayerScore_def)
  have 3: "length (players (handleSubmitGuess s)) = length (players s)"
    by (simp add: hs)
  have 4: "players (handleSubmitGuess s) ! k =
          (if currentPlayerIndex s = Some k
           then (players s ! k)\<lparr>score := score (players s ! k) + 5\<rparr>
           else players s ! k)" if "k < length (players s)" for k
    using that players_updateCurrentPlayerScore[of k ?s1 5] by (simp add: hs)
  show ?thesis using 1 2 3 4 by blast
qed

theorem correct_guess_frame_witness:
  "gameStatus (playing_italy\<lparr>userGuess := ''itly''\<rparr>) = PLAYING \<and>
   targetCountry (playing_italy\<lparr>userGuess := ''itly''\<rparr>) = Some italy \<and>
   isCorrect italy (playing_italy\<lparr>userGuess := ''itly''\<rparr>) \<and>
   gameStatus (handleSubmitGuess (playing_italy\<lparr>userGuess := ''itly''\<rparr>)) = SUCCESS \<and>
   lives (handleSubmitGuess (playing_italy\<lparr>userGuess := ''itly''\<rparr>)) = 3 \<and>
   map score (players (handleSubmitGuess (playing_italy\<lparr>userGuess := ''itly''\<rparr>))) = [5]"
proof -
  let ?s = "playing_italy\<lparr>userGuess := ''itly''\<rparr>"
  have p: "gameStatus ?s = PLAYING" by code_simp
  have t: "targetCountry ?s = Some italy" by code_simp
  have c: "isCorrect italy ?s" by code_simp
  have l: "lives ?s = 3" by code_simp
  have sc: "map score (players (handleSubmitGuess ?s)) = [5]" by code_simp
  have "gameStatus (handleSubmitGuess ?s) = SUCCESS" "lives (handleSubmitGuess ?s) = lives ?s"
    using correct_guess_frame [OF p t c] by blast+
  then show ?thesis using p t c l sc by simp
qed

end
